theory Spec2Isabelle
  imports Main "HOL-Library.Char_ord" "HOL-Library.List_Lexorder" "HOL-Library.Sublist"
begin

section \<open>Paths and strings\<close>

text \<open>
  A \<^verbatim>\<open>pathlib.Path\<close> is the list of its components.  Characters are 8-bit code
  points; the string methods of Python that the program calls are written out for that
  range.  \<^verbatim>\<open>str.lower\<close> maps the capitals 65 to 90 and 192 to 222 (but 215, the
  multiplication sign) to the letter 32 above.  \<^verbatim>\<open>str.capitalize\<close> puts the first
  character into title case: the capital 32 below for the letters 97 to 122 and 224 to
  254 (but 247, the division sign), and the two characters ``Ss'' for 223.  The title
  case of 181 and of 255 lies above 255: \<open>title_char\<close> leaves these two as they are.
\<close>

type_synonym path = "string list"

definition name_of :: "path \<Rightarrow> string" where
  "name_of p = (if p = [] then [] else last p)"

definition parent :: "path \<Rightarrow> path" where
  "parent p = butlast p"

definition lower_char :: "char \<Rightarrow> char" where
  "lower_char c = (let n = (of_char c :: nat)
                   in if (65 \<le> n \<and> n \<le> 90) \<or> (192 \<le> n \<and> n \<le> 222 \<and> n \<noteq> 215)
                      then char_of (n + 32) else c)"

definition title_char :: "char \<Rightarrow> string" where
  "title_char c = (let n = (of_char c :: nat)
                   in if (97 \<le> n \<and> n \<le> 122) \<or> (224 \<le> n \<and> n \<le> 254 \<and> n \<noteq> 247)
                      then [char_of (n - 32)]
                      else if n = 223 then ''Ss'' else [c])"

definition lower :: "string \<Rightarrow> string" where
  "lower s = map lower_char s"

definition is_space :: "char \<Rightarrow> bool" where
  "is_space c = (let n = (of_char c :: nat) in (9 \<le> n \<and> n \<le> 13) \<or> (28 \<le> n \<and> n \<le> 32) \<or> n = 133 \<or> n = 160)"

definition strip :: "string \<Rightarrow> string" where
  "strip s = rev (dropWhile is_space (rev (dropWhile is_space s)))"

definition capitalize :: "string \<Rightarrow> string" where
  "capitalize s = (case s of [] \<Rightarrow> [] | c # cs \<Rightarrow> title_char c @ lower cs)"

definition rfind_dot :: "string \<Rightarrow> nat option" where
  "rfind_dot s = (let k = length (takeWhile (\<lambda>c. c \<noteq> CHR ''.'') (rev s))
                  in if k = length s then None else Some (length s - 1 - k))"

text \<open>\<^verbatim>\<open>PurePath.suffix\<close> and \<^verbatim>\<open>PurePath.stem\<close>, on the final component.\<close>

definition suffix_of :: "string \<Rightarrow> string" where
  "suffix_of s = (case rfind_dot s of
      None \<Rightarrow> []
    | Some i \<Rightarrow> if 0 < i \<and> i + 1 < length s then drop i s else [])"

definition stem :: "string \<Rightarrow> string" where
  "stem s = (case rfind_dot s of
      None \<Rightarrow> s
    | Some i \<Rightarrow> if 0 < i \<and> i + 1 < length s then take i s else s)"

section \<open>Entries (walker.py, the dictionaries of the tree)\<close>

datatype kind = Folder | Pdf | Img

text \<open>
  One dictionary of the tree.  A key that may be missing is an option: \<open>title\<close> and
  \<open>labels\<close> are set on folders, \<open>label\<close> on files, \<open>only_images\<close> is set (to True) or
  missing, \<open>pages\<close> and \<open>page\<close> are added by merger.py.
\<close>

record entry =
  kind :: kind
  path :: path
  title :: "string option"
  labels :: "string \<rightharpoonup> string"
  only_images :: bool
  label :: "string option"
  pages :: "nat option"
  page :: "nat option"

section \<open>merger.py\<close>

text \<open>
  The collaborators of the merger: what \<^verbatim>\<open>PdfReader(path).pages\<close> holds (None when
  opening raises), what converting an image at a page size and dpi and reading the
  temporary file back gives (None when either raises), and whether
  \<^verbatim>\<open>add_outline_item\<close> raises on a request.
\<close>

record 'pg world =
  pdf_reader :: "path \<Rightarrow> 'pg list option"
  img_to_pdf :: "path \<Rightarrow> string option \<Rightarrow> int \<Rightarrow> 'pg list option"
  outline_raises :: "string \<Rightarrow> nat \<Rightarrow> nat option \<Rightarrow> bool"

record onode =
  otitle :: string
  page_number :: nat
  oparent :: "nat option"

text \<open>
  The state the loop of \<^verbatim>\<open>merge\<close> threads: the writer (its pages and its outline
  items, an item's reference being its position), the temporary files, the
  \<^verbatim>\<open>parents\<close> dictionary and \<^verbatim>\<open>page_index\<close>.
\<close>

record 'pg mstate =
  writer_pages :: "'pg list"
  writer_outline :: "onode list"
  tempfiles :: "path list"
  parents :: "path \<rightharpoonup> nat option"
  page_index :: nat

datatype error = KeyError path | NotADirectoryError path | TypeError

text \<open>
  Every handler of merger.py reports with \<^verbatim>\<open>console.print(..., file=sys.stderr)\<close>.
  The console is the \<^verbatim>\<open>rich.console.Console\<close> that cli.py makes, and its
  \<^verbatim>\<open>print\<close> has no parameter \<^verbatim>\<open>file\<close>: the call raises TypeError, which leaves
  the handler and the function around it.
\<close>

definition console_print_file :: "error + unit" where
  "console_print_file = Inl TypeError"

definition get_pages :: "entry \<Rightarrow> nat" where
  "get_pages item = (case pages item of None \<Rightarrow> 0 | Some n \<Rightarrow> n)"

text \<open>One turn of the loop of \<^verbatim>\<open>_update_files_page_count\<close>, and the loop.\<close>

definition update_item_page_count :: "'pg world \<Rightarrow> entry \<Rightarrow> error + entry" where
  "update_item_page_count w item =
     (if kind item \<noteq> Pdf \<and> kind item \<noteq> Img then Inr item
      else if kind item = Pdf then
        (case pdf_reader w (path item) of
           Some pgs \<Rightarrow> Inr (item\<lparr>pages := Some (length pgs)\<rparr>)
         | None \<Rightarrow>
             (case console_print_file of
                Inl e \<Rightarrow> Inl e
              | Inr u \<Rightarrow> Inr (item\<lparr>pages := Some 0\<rparr>)))
      else Inr (item\<lparr>pages := Some 1\<rparr>))"

fun update_files_page_count :: "'pg world \<Rightarrow> entry list \<Rightarrow> error + entry list" where
  "update_files_page_count w [] = Inr []"
| "update_files_page_count w (item # rest) =
     (case update_item_page_count w item of
        Inl e \<Rightarrow> Inl e
      | Inr item' \<Rightarrow>
          (case update_files_page_count w rest of
             Inl e \<Rightarrow> Inl e
           | Inr rest' \<Rightarrow> Inr (item' # rest')))"

text \<open>The loop of \<^verbatim>\<open>_assign_folder_page_indices\<close>, on the reversed tree.\<close>

fun assign_reversed :: "nat \<Rightarrow> entry list \<Rightarrow> entry list" where
  "assign_reversed last_valid_page [] = []"
| "assign_reversed last_valid_page (item # rest) =
     (case page item of
        Some p \<Rightarrow>
          if get_pages item > 0 then item # assign_reversed p rest
          else if kind item = Folder
            then item\<lparr>page := Some last_valid_page\<rparr> # assign_reversed last_valid_page rest
            else item # assign_reversed last_valid_page rest
      | None \<Rightarrow>
          if kind item = Folder
            then item\<lparr>page := Some last_valid_page\<rparr> # assign_reversed last_valid_page rest
            else item # assign_reversed last_valid_page rest)"

definition assign_folder_page_indices :: "entry list \<Rightarrow> entry list" where
  "assign_folder_page_indices tree = rev (assign_reversed 0 (rev tree))"

definition insert_into_pdf ::
  "'pg world \<Rightarrow> 'pg mstate \<Rightarrow> entry \<Rightarrow> string option \<Rightarrow> int
     \<Rightarrow> error + ('pg mstate \<times> path option)" where
  "insert_into_pdf w st item page_size dpi =
     (if kind item = Pdf then
        (case pdf_reader w (path item) of
           Some pgs \<Rightarrow> Inr (st\<lparr>writer_pages := writer_pages st @ pgs\<rparr>, None)
         | None \<Rightarrow>
             (case console_print_file of Inl e \<Rightarrow> Inl e | Inr u \<Rightarrow> Inr (st, None)))
      else if kind item = Img then
        (case img_to_pdf w (path item) page_size dpi of
           Some pgs \<Rightarrow> Inr (st\<lparr>writer_pages := writer_pages st @ pgs\<rparr>, Some (path item))
         | None \<Rightarrow>
             (case console_print_file of Inl e \<Rightarrow> Inl e | Inr u \<Rightarrow> Inr (st, None)))
      else Inr (st, None))"

definition replace_underscores :: "string \<Rightarrow> string" where
  "replace_underscores s = map (\<lambda>c. if c = CHR ''_'' then CHR '' '' else c) s"

definition prettify_label :: "string \<Rightarrow> string" where
  "prettify_label s = capitalize (strip (replace_underscores s))"

definition add_outline ::
  "'pg world \<Rightarrow> 'pg mstate \<Rightarrow> entry \<Rightarrow> nat option \<Rightarrow> bool \<Rightarrow> error + ('pg mstate \<times> nat option)" where
  "add_outline w st item par pretty_labels =
     (case page item of
        None \<Rightarrow> Inr (st, None)
      | Some pg \<Rightarrow>
          if kind item \<noteq> Folder \<and> get_pages item = 0 then Inr (st, None)
          else
            let lbl0 = (case label item of Some l \<Rightarrow> l | None \<Rightarrow> stem (name_of (path item)));
                lbl = (if pretty_labels \<and> label item = None then prettify_label lbl0 else lbl0)
            in if outline_raises w lbl pg par
               then (case console_print_file of Inl e \<Rightarrow> Inl e | Inr u \<Rightarrow> Inr (st, None))
               else Inr (st\<lparr>writer_outline := writer_outline st
                              @ [\<lparr>otitle = lbl, page_number = pg, oparent = par\<rparr>]\<rparr>,
                         Some (length (writer_outline st))))"

definition folders_of :: "entry list \<Rightarrow> (path \<rightharpoonup> entry)" where
  "folders_of tree = fold (\<lambda>x m. if kind x = Folder then m(path x \<mapsto> x) else m) tree Map.empty"

definition parents_get :: "(path \<rightharpoonup> nat option) \<Rightarrow> path \<Rightarrow> nat option" where
  "parents_get ps p = (case ps p of None \<Rightarrow> None | Some r \<Rightarrow> r)"

text \<open>
  One turn of the loop of \<^verbatim>\<open>merge\<close>; the item comes back with its \<open>page\<close>.  The
  test before \<^verbatim>\<open>continue\<close> looks the folder of an image up and raises when it is not
  in \<^verbatim>\<open>folders\<close>.
\<close>

definition merge_item ::
  "'pg world \<Rightarrow> (path \<rightharpoonup> entry) \<Rightarrow> bool \<Rightarrow> string option \<Rightarrow> int \<Rightarrow> 'pg mstate \<Rightarrow> entry
     \<Rightarrow> error + ('pg mstate \<times> entry)" where
  "merge_item w folders pretty_labels page_size dpi st item =
     (case insert_into_pdf w st item page_size dpi of
        Inl e \<Rightarrow> Inl e
      | Inr (st1, tmp) \<Rightarrow>
          let st2 = (case tmp of Some t \<Rightarrow> st1\<lparr>tempfiles := tempfiles st1 @ [t]\<rparr> | None \<Rightarrow> st1);
              num_pages = get_pages item;
              item' = item\<lparr>page := Some (page_index st2)\<rparr>;
              st3 = st2\<lparr>page_index := page_index st2 + num_pages\<rparr>
          in case (if kind item = Img
                   then (case folders (parent (path item)) of
                           None \<Rightarrow> Inl (KeyError (parent (path item)))
                         | Some f \<Rightarrow> Inr (only_images f))
                   else Inr False) of
               Inl e \<Rightarrow> Inl e
             | Inr skip \<Rightarrow>
                 if skip then Inr (st3, item')
                 else
                   (case add_outline w st3 item' (parents_get (parents st3) (parent (path item)))
                           pretty_labels of
                      Inl e \<Rightarrow> Inl e
                    | Inr (st4, outline) \<Rightarrow>
                        if kind item = Folder
                        then Inr (st4\<lparr>parents := (parents st4)(path item \<mapsto> outline)\<rparr>, item')
                        else Inr (st4, item')))"

fun merge_loop ::
  "'pg world \<Rightarrow> (path \<rightharpoonup> entry) \<Rightarrow> bool \<Rightarrow> string option \<Rightarrow> int \<Rightarrow> 'pg mstate \<Rightarrow> entry list
     \<Rightarrow> error + ('pg mstate \<times> entry list)" where
  "merge_loop w folders pretty_labels page_size dpi st [] = Inr (st, [])"
| "merge_loop w folders pretty_labels page_size dpi st (item # rest) =
     (case merge_item w folders pretty_labels page_size dpi st item of
        Inl e \<Rightarrow> Inl e
      | Inr (st', item') \<Rightarrow>
          (case merge_loop w folders pretty_labels page_size dpi st' rest of
             Inl e \<Rightarrow> Inl e
           | Inr (st'', rest') \<Rightarrow> Inr (st'', item' # rest')))"

definition init_state :: "'pg mstate" where
  "init_state = \<lparr>writer_pages = [], writer_outline = [], tempfiles = [],
                 parents = Map.empty, page_index = 0\<rparr>"

text \<open>
  \<^verbatim>\<open>merge\<close>: the result holds the writer and the temporary files the source returns,
  and the tree, whose dictionaries the source updates in place.
\<close>

definition merge ::
  "'pg world \<Rightarrow> entry list \<Rightarrow> bool \<Rightarrow> string option \<Rightarrow> int \<Rightarrow> error + ('pg mstate \<times> entry list)" where
  "merge w tree pretty_labels page_size dpi =
     (case update_files_page_count w tree of
        Inl e \<Rightarrow> Inl e
      | Inr tree1 \<Rightarrow>
          let tree2 = assign_folder_page_indices tree1
          in merge_loop w (folders_of tree2) pretty_labels page_size dpi init_state tree2)"

section \<open>walker.py\<close>

text \<open>
  A snapshot of the directory tree.  A file has a name and its text, None when
  \<^verbatim>\<open>read_text\<close> raises; a directory has a name and its entries in the order
  \<^verbatim>\<open>iterdir\<close> yields them.  Control files are entries like any other.
\<close>

datatype node = File string "string option" | Dir string "node list"

fun node_name :: "node \<Rightarrow> string" where
  "node_name (File n c) = n"
| "node_name (Dir n cs) = n"

fun is_dir :: "node \<Rightarrow> bool" where
  "is_dir (File n c) = False"
| "is_dir (Dir n cs) = True"

fun iterdir :: "node \<Rightarrow> node list" where
  "iterdir (File n c) = []"
| "iterdir (Dir n cs) = cs"

text \<open>\<^verbatim>\<open>(path / name).exists()\<close> and the entry found there.\<close>

definition child_named :: "node \<Rightarrow> string \<Rightarrow> node option" where
  "child_named nd n = find (\<lambda>c. node_name c = n) (iterdir nd)"

definition is_linebreak :: "char \<Rightarrow> bool" where
  "is_linebreak c = (let n = (of_char c :: nat) in (10 \<le> n \<and> n \<le> 13) \<or> (28 \<le> n \<and> n \<le> 30) \<or> n = 133)"

text \<open>\<^verbatim>\<open>str.splitlines\<close>: \<open>acc\<close> is the current line, reversed.\<close>

fun splitlines_from :: "string \<Rightarrow> string \<Rightarrow> string list" where
  "splitlines_from acc [] = (if acc = [] then [] else [rev acc])"
| "splitlines_from acc [c] = (if is_linebreak c then [rev acc] else [rev (c # acc)])"
| "splitlines_from acc (c # d # cs) =
     (if c = CHR 0x0D \<and> d = CHR 0x0A then rev acc # splitlines_from [] cs
      else if is_linebreak c then rev acc # splitlines_from [] (d # cs)
      else splitlines_from (c # acc) (d # cs))"

definition splitlines :: "string \<Rightarrow> string list" where
  "splitlines s = splitlines_from [] s"

definition load_dotfile_lines :: "node option \<Rightarrow> string list" where
  "load_dotfile_lines f =
     (case f of
        Some (File n (Some text)) \<Rightarrow> filter (\<lambda>l. l \<noteq> []) (map strip (splitlines text))
      | _ \<Rightarrow> [])"

definition should_ignore :: "path \<Rightarrow> node \<Rightarrow> bool" where
  "should_ignore p nd = (child_named nd ''.ignore'' \<noteq> None \<or> name_of p = ''.ignore'')"

text \<open>\<^verbatim>\<open>str(Path(*parts))\<close>.\<close>

fun path_str :: "string list \<Rightarrow> string" where
  "path_str [] = ''.''"
| "path_str [x] = x"
| "path_str (x # y # ys) = x @ ''/'' @ path_str (y # ys)"

text \<open>
  The filters: \<open>search\<close> is \<^verbatim>\<open>re.search\<close>, and a pattern list that is None or empty is
  false.
\<close>

definition truthy :: "'a list option \<Rightarrow> bool" where
  "truthy xs = (case xs of None \<Rightarrow> False | Some l \<Rightarrow> l \<noteq> [])"

definition patterns :: "'a list option \<Rightarrow> 'a list" where
  "patterns xs = (case xs of None \<Rightarrow> [] | Some l \<Rightarrow> l)"

definition match_filters ::
  "('p \<Rightarrow> string \<Rightarrow> bool) \<Rightarrow> string list \<Rightarrow> 'p list option \<Rightarrow> 'p list option \<Rightarrow> bool" where
  "match_filters search parts includes excludes =
     (let as_str = path_str parts in
      if truthy includes \<and> \<not> list_ex (\<lambda>pattern. search pattern as_str) (patterns includes) then False
      else if truthy excludes \<and> list_ex (\<lambda>pattern. search pattern as_str) (patterns excludes) then False
      else True)"

definition is_img :: "string \<Rightarrow> bool" where
  "is_img n = (lower (suffix_of n) \<in> set [''.jpg'', ''.jpeg'', ''.png'', ''.bmp'', ''.tiff'', ''.gif''])"

definition is_pdf :: "string \<Rightarrow> bool" where
  "is_pdf n = (lower (suffix_of n) = ''.pdf'')"

definition is_valid :: "node \<Rightarrow> bool" where
  "is_valid nd = (is_dir nd \<or> is_pdf (node_name nd) \<or> is_img (node_name nd))"

definition startswith_dot :: "string \<Rightarrow> bool" where
  "startswith_dot n = (case n of [] \<Rightarrow> False | c # cs \<Rightarrow> c = CHR ''.'')"

text \<open>
  The dictionary \<^verbatim>\<open>{name: i for i, name in enumerate(preferred)}\<close>, and its length.
\<close>

definition preferred_map :: "string list \<Rightarrow> (string \<rightharpoonup> nat)" where
  "preferred_map preferred = fold (\<lambda>(i, name) m. m(name \<mapsto> i)) (enumerate 0 preferred) Map.empty"

definition preferred_len :: "string list \<Rightarrow> nat" where
  "preferred_len preferred = length (remdups preferred)"

text \<open>
  The key of the second sort; \<open>hash\<close> is the built-in \<^verbatim>\<open>hash\<close> on strings of the
  running process.
\<close>

definition order_key :: "(string \<Rightarrow> int) \<Rightarrow> string list \<Rightarrow> node \<Rightarrow> int" where
  "order_key hash preferred p =
     (case preferred_map preferred (node_name p) of
        Some i \<Rightarrow> int i
      | None \<Rightarrow> int (preferred_len preferred) + hash (lower (node_name p)))"

definition ordered_children :: "(string \<Rightarrow> int) \<Rightarrow> node \<Rightarrow> node list" where
  "ordered_children hash nd =
     (let children = sort_key (\<lambda>p. lower (node_name p)) (iterdir nd)
      in if child_named nd ''.order'' \<noteq> None
         then sort_key (order_key hash (load_dotfile_lines (child_named nd ''.order''))) children
         else children)"

text \<open>
  The inner function \<^verbatim>\<open>walk\<close>; what it appends to \<^verbatim>\<open>selection\<close> is its result.  A
  selected path comes with the entry of the snapshot at that path.
\<close>

function walk ::
  "('p \<Rightarrow> string \<Rightarrow> bool) \<Rightarrow> (string \<Rightarrow> int) \<Rightarrow> 'p list option \<Rightarrow> 'p list option
     \<Rightarrow> path \<Rightarrow> string list \<Rightarrow> node \<Rightarrow> (path \<times> node) list" where
  "walk search hash includes excludes current_path rel_parts nd =
     (if should_ignore current_path nd then []
      else if \<not> match_filters search rel_parts includes excludes then []
      else (current_path, nd) #
           concat (map (\<lambda>child.
               if \<not> is_valid child then []
               else if startswith_dot (node_name child)
                       \<or> node_name child \<in> set [''.order'', ''.label'', ''.title'', ''.dpi''] then []
               else if is_dir child
                 then walk search hash includes excludes
                        (current_path @ [node_name child]) (rel_parts @ [node_name child]) child
               else if match_filters search (rel_parts @ [node_name child]) includes excludes
                 then [(current_path @ [node_name child], child)]
               else [])
             (ordered_children hash nd)))"
  by pat_completeness auto
termination
proof (relation "measure (\<lambda>(search, hash, inc, exc, current_path, rel_parts, nd). size nd)")
  show "wf (measure (\<lambda>(search, hash, inc, exc, current_path, rel_parts, nd). size nd))"
    by simp
next
  fix search :: "'p \<Rightarrow> string \<Rightarrow> bool" and hash :: "string \<Rightarrow> int"
    and inc exc :: "'p list option" and current_path rel_parts :: "string list"
    and nd child :: node
  assume "child \<in> set (ordered_children hash nd)"
  then have "child \<in> set (iterdir nd)"
    by (simp add: ordered_children_def Let_def split: if_splits)
  then have "size child < size nd"
    by (cases nd) (auto simp: less_Suc_eq_le size_list_estimation')
  then show "((search, hash, inc, exc, current_path @ [node_name child],
               rel_parts @ [node_name child], child),
              (search, hash, inc, exc, current_path, rel_parts, nd))
             \<in> measure (\<lambda>(search, hash, inc, exc, current_path, rel_parts, nd). size nd)"
    by simp
qed

declare walk.simps [simp del]

text \<open>
  \<^verbatim>\<open>select_paths\<close>, with the resolved root given as the path \<open>base\<close> of its directory
  and its entry.  On a root that is a file, \<^verbatim>\<open>iterdir\<close> raises.
\<close>

definition select_paths ::
  "('p \<Rightarrow> string \<Rightarrow> bool) \<Rightarrow> (string \<Rightarrow> int) \<Rightarrow> path \<Rightarrow> node \<Rightarrow> 'p list option \<Rightarrow> 'p list option
     \<Rightarrow> error + (path \<times> node) list" where
  "select_paths search hash base root includes excludes =
     (let p = base @ [node_name root] in
      if is_dir root then Inr (walk search hash includes excludes p [] root)
      else if should_ignore p root then Inr []
      else if \<not> match_filters search [] includes excludes then Inr []
      else Inl (NotADirectoryError p))"

text \<open>
  \<^verbatim>\<open>_resolve_title\<close> and \<^verbatim>\<open>_resolve_labels\<close>: the text of the marker file when it
  can be read; a line of the label file is split at its first ``=''.
\<close>

definition resolve_title :: "path \<Rightarrow> node \<Rightarrow> string" where
  "resolve_title p nd =
     (case child_named nd ''.title'' of
        Some (File n (Some text)) \<Rightarrow> strip text
      | _ \<Rightarrow> name_of p)"

definition resolve_labels :: "node \<Rightarrow> (string \<rightharpoonup> string)" where
  "resolve_labels nd =
     (case child_named nd ''.label'' of
        Some (File n (Some text)) \<Rightarrow>
          fold (\<lambda>line labels.
                 if CHR ''='' \<in> set line
                 then labels(strip (takeWhile (\<lambda>c. c \<noteq> CHR ''='') line)
                             \<mapsto> strip (drop 1 (dropWhile (\<lambda>c. c \<noteq> CHR ''='') line)))
                 else labels)
               (splitlines text) Map.empty
      | _ \<Rightarrow> Map.empty)"

definition describe_folder :: "path \<Rightarrow> node \<Rightarrow> entry" where
  "describe_folder p nd =
     (let children = iterdir nd;
          has_pdf = list_ex (\<lambda>child. is_pdf (node_name child)) (filter (\<lambda>child. \<not> is_dir child) children);
          has_img = list_ex (\<lambda>child. is_img (node_name child)) (filter (\<lambda>child. \<not> is_dir child) children)
      in \<lparr>kind = Folder, path = p, title = Some (resolve_title p nd), labels = resolve_labels nd,
          only_images = (has_img \<and> \<not> has_pdf), label = None, pages = None, page = None\<rparr>)"

text \<open>A label is attached when the folder has one for the name that is not empty.\<close>

definition describe_file :: "path \<Rightarrow> entry \<Rightarrow> entry option" where
  "describe_file p folder =
     (let lbl = (case labels folder (name_of p) of
                   Some l \<Rightarrow> if l \<noteq> [] then Some l else None
                 | None \<Rightarrow> None)
      in if is_pdf (name_of p)
           then Some \<lparr>kind = Pdf, path = p, title = None, labels = Map.empty, only_images = False,
                      label = lbl, pages = None, page = None\<rparr>
         else if is_img (name_of p)
           then Some \<lparr>kind = Img, path = p, title = None, labels = Map.empty, only_images = False,
                      label = lbl, pages = None, page = None\<rparr>
         else None)"

text \<open>
  \<^verbatim>\<open>build_tree_description\<close>: the dictionary \<^verbatim>\<open>folders\<close> of the first loop, then the
  second loop; a missing key raises.
\<close>

definition described_folders :: "(path \<times> node) list \<Rightarrow> (path \<rightharpoonup> entry)" where
  "described_folders files =
     fold (\<lambda>(p, nd) folders. if is_dir nd then folders(p \<mapsto> describe_folder p nd) else folders)
       files Map.empty"

fun describe_loop :: "(path \<rightharpoonup> entry) \<Rightarrow> (path \<times> node) list \<Rightarrow> error + entry list" where
  "describe_loop folders [] = Inr []"
| "describe_loop folders ((p, nd) # files) =
     (if is_dir nd then
        (case folders p of
           None \<Rightarrow> Inl (KeyError p)
         | Some f \<Rightarrow>
             (case describe_loop folders files of Inl e \<Rightarrow> Inl e | Inr tree \<Rightarrow> Inr (f # tree)))
      else
        (case folders (parent p) of
           None \<Rightarrow> Inl (KeyError (parent p))
         | Some f \<Rightarrow>
             (case describe_loop folders files of
                Inl e \<Rightarrow> Inl e
              | Inr tree \<Rightarrow>
                  (case describe_file p f of Some desc \<Rightarrow> Inr (desc # tree) | None \<Rightarrow> Inr tree))))"

definition build_tree_description :: "(path \<times> node) list \<Rightarrow> error + entry list" where
  "build_tree_description files = describe_loop (described_folders files) files"

text \<open>What one turn of the loop over the children in \<^verbatim>\<open>walk\<close> appends.\<close>

definition child_part ::
  "('p \<Rightarrow> string \<Rightarrow> bool) \<Rightarrow> (string \<Rightarrow> int) \<Rightarrow> 'p list option \<Rightarrow> 'p list option
     \<Rightarrow> path \<Rightarrow> string list \<Rightarrow> node \<Rightarrow> (path \<times> node) list" where
  "child_part search hash inc exc current_path rel_parts child =
     (if \<not> is_valid child then []
      else if startswith_dot (node_name child)
              \<or> node_name child \<in> set [''.order'', ''.label'', ''.title'', ''.dpi''] then []
      else if is_dir child
        then walk search hash inc exc (current_path @ [node_name child]) (rel_parts @ [node_name child]) child
      else if match_filters search (rel_parts @ [node_name child]) inc exc
        then [(current_path @ [node_name child], child)]
      else [])"

section \<open>cli.py\<close>

text \<open>The three calls of \<^verbatim>\<open>main\<close> that make the document.\<close>

definition compile ::
  "('p \<Rightarrow> string \<Rightarrow> bool) \<Rightarrow> (string \<Rightarrow> int) \<Rightarrow> 'pg world \<Rightarrow> path \<Rightarrow> node
     \<Rightarrow> 'p list option \<Rightarrow> 'p list option \<Rightarrow> bool \<Rightarrow> string option \<Rightarrow> int
     \<Rightarrow> error + ('pg mstate \<times> entry list)" where
  "compile search hash w base root inc exc pretty_labels page_size dpi =
     (case select_paths search hash base root inc exc of
        Inl e \<Rightarrow> Inl e
      | Inr files \<Rightarrow>
          (case build_tree_description files of
             Inl e \<Rightarrow> Inl e
           | Inr tree \<Rightarrow> merge w tree pretty_labels page_size dpi))"

section \<open>The assembler: notions of the properties\<close>

text \<open>
  Pass 1 of the specification: a cursor starts at 0, every entry takes the cursor as its
  start page, and the cursor moves on by the entry's page count.
\<close>

fun start_pages :: "nat \<Rightarrow> nat list \<Rightarrow> nat list" where
  "start_pages cursor [] = []"
| "start_pages cursor (n # ns) = cursor # start_pages (cursor + n) ns"

text \<open>
  How an entry of the tree that \<^verbatim>\<open>merge\<close> got and the same entry of the tree it leaves
  are related in \<open>pages\<close>, when \<^verbatim>\<open>merge\<close> returns: a folder keeps what it had, a pdf
  has the number of pages the reader found, and an image has 1, whether or not it can
  be opened.  A pdf that cannot be read is related to nothing: \<^verbatim>\<open>merge\<close> does not
  return then.
\<close>

definition counted_as :: "'pg world \<Rightarrow> entry \<Rightarrow> entry \<Rightarrow> bool" where
  "counted_as w item item' =
     (case kind item of
        Folder \<Rightarrow> pages item' = pages item
      | Pdf \<Rightarrow> (case pdf_reader w (path item) of
                  Some pgs \<Rightarrow> pages item' = Some (length pgs)
                | None \<Rightarrow> False)
      | Img \<Rightarrow> pages item' = Some 1)"

definition folder_paths :: "entry list \<Rightarrow> path list" where
  "folder_paths tree = map path (filter (\<lambda>x. kind x = Folder) tree)"

text \<open>
  What \<^verbatim>\<open>build_tree_description\<close> guarantees of its result: a folder has no
  \<open>pages\<close> key, and the folder of every image is an entry of the tree.
\<close>

definition described :: "entry list \<Rightarrow> bool" where
  "described tree = list_all (\<lambda>item.
       (kind item = Folder \<longrightarrow> pages item = None)
     \<and> (kind item = Img \<longrightarrow> parent (path item) \<in> set (folder_paths tree))) tree"

text \<open>
  All content of the tree can be read: every pdf opens, and every image is converted,
  at this page size and dpi, to a pdf that opens.
\<close>

definition readable :: "'pg world \<Rightarrow> string option \<Rightarrow> int \<Rightarrow> entry list \<Rightarrow> bool" where
  "readable w page_size dpi tree = list_all (\<lambda>item.
       (kind item = Pdf \<longrightarrow> pdf_reader w (path item) \<noteq> None)
     \<and> (kind item = Img \<longrightarrow> img_to_pdf w (path item) page_size dpi \<noteq> None)) tree"

text \<open>
  The start page of the first entry of a list that has pages, and \<open>final\<close> when no
  entry has any.
\<close>

fun next_content_page :: "entry list \<Rightarrow> nat \<Rightarrow> nat option" where
  "next_content_page [] final = Some final"
| "next_content_page (e # es) final = (if get_pages e > 0 then page e else next_content_page es final)"

text \<open>What \<^verbatim>\<open>_insert_into_pdf\<close> adds to the writer for an entry, when it returns.\<close>

definition inserted_pages :: "'pg world \<Rightarrow> string option \<Rightarrow> int \<Rightarrow> entry \<Rightarrow> 'pg list" where
  "inserted_pages w page_size dpi item =
     (case kind item of
        Folder \<Rightarrow> []
      | Pdf \<Rightarrow> (case pdf_reader w (path item) of Some pgs \<Rightarrow> pgs | None \<Rightarrow> [])
      | Img \<Rightarrow> (case img_to_pdf w (path item) page_size dpi of Some pgs \<Rightarrow> pgs | None \<Rightarrow> []))"

text \<open>
  The title \<^verbatim>\<open>_add_outline\<close> gives the outline item of an entry: its label, and
  without one the stem of its name, prettified on request.
\<close>

definition outline_title :: "bool \<Rightarrow> entry \<Rightarrow> string" where
  "outline_title pretty_labels item =
     (case label item of
        Some l \<Rightarrow> l
      | None \<Rightarrow> if pretty_labels then prettify_label (stem (name_of (path item)))
                else stem (name_of (path item)))"

text \<open>Whether the folder of an entry has \<open>only_images\<close> set.\<close>

definition in_only_images :: "(path \<rightharpoonup> entry) \<Rightarrow> entry \<Rightarrow> bool" where
  "in_only_images folders item =
     (case folders (parent (path item)) of Some f \<Rightarrow> only_images f | None \<Rightarrow> False)"

text \<open>
  The outline items, by title and page, that one turn of the loop of \<^verbatim>\<open>merge\<close> leaves
  for an entry when it returns: none for an image of a folder with \<open>only_images\<close>;
  otherwise one for a folder, one for a file with pages, none for a file without.
\<close>

definition outline_entry :: "(path \<rightharpoonup> entry) \<Rightarrow> bool \<Rightarrow> entry \<Rightarrow> (string \<times> nat option) list" where
  "outline_entry folders pretty_labels e =
     (if kind e = Img \<and> in_only_images folders e then []
      else if kind e = Folder then [(outline_title pretty_labels e, page e)]
      else if 0 < get_pages e then [(outline_title pretty_labels e, page e)]
      else [])"

definition title_and_page :: "onode \<Rightarrow> string \<times> nat option" where
  "title_and_page n = (otitle n, Some (page_number n))"

text \<open>An entry without its \<open>title\<close>.\<close>

definition untitled :: "entry \<Rightarrow> entry" where
  "untitled e = e\<lparr>title := None\<rparr>"

section \<open>The selection, as the specification words it\<close>









section \<open>Example inputs\<close>

definition example_world :: "nat world" where
  "example_world = \<lparr>pdf_reader = (\<lambda>p. if p = [''d'', ''a.pdf''] then Some [1, 2, 3] else None),
                     img_to_pdf = (\<lambda>p s d. Some [0]),
                     outline_raises = (\<lambda>t n p. False)\<rparr>"

definition folder_entry :: "path \<Rightarrow> entry" where
  "folder_entry p = \<lparr>kind = Folder, path = p, title = Some (name_of p), labels = Map.empty,
                     only_images = False, label = None, pages = None, page = None\<rparr>"

definition file_entry :: "kind \<Rightarrow> path \<Rightarrow> entry" where
  "file_entry k p = \<lparr>kind = k, path = p, title = None, labels = Map.empty,
                     only_images = False, label = None, pages = None, page = None\<rparr>"

definition example_tree :: "entry list" where
  "example_tree = [folder_entry [''d''], file_entry Pdf [''d'', ''a.pdf''],
                   folder_entry [''d'', ''s''], file_entry Img [''d'', ''s'', ''x.png'']]"

text \<open>A tree that ends with an empty folder.\<close>

definition backfill_tree :: "entry list" where
  "backfill_tree = [folder_entry [''d''], file_entry Pdf [''d'', ''a.pdf''], folder_entry [''d'', ''z'']]"

text \<open>A folder that holds two images and no pdf.\<close>

definition album_world :: "nat world" where
  "album_world = \<lparr>pdf_reader = (\<lambda>p. None),
                   img_to_pdf = (\<lambda>p s d. if p = [''album'', ''x.jpg''] then Some [10] else Some [20]),
                   outline_raises = (\<lambda>t n p. False)\<rparr>"

definition album_dir :: node where
  "album_dir = Dir ''album'' [File ''y.png'' None, File ''x.jpg'' None]"

text \<open>A folder with a pdf that cannot be opened.\<close>

definition unreadable_world :: "nat world" where
  "unreadable_world = \<lparr>pdf_reader = (\<lambda>p. None), img_to_pdf = (\<lambda>p s d. Some [0]),
                        outline_raises = (\<lambda>t n p. False)\<rparr>"

definition unreadable_tree :: "entry list" where
  "unreadable_tree = [folder_entry [''d''], file_entry Pdf [''d'', ''a.pdf'']]"

text \<open>A folder with an image that cannot be converted and a pdf of 3 pages.\<close>

definition broken_image_world :: "nat world" where
  "broken_image_world = \<lparr>pdf_reader = (\<lambda>p. if p = [''d'', ''z.pdf''] then Some [1, 2, 3] else None),
                     img_to_pdf = (\<lambda>p s d. None),
                     outline_raises = (\<lambda>t n p. False)\<rparr>"

definition broken_image_tree :: "entry list" where
  "broken_image_tree = [folder_entry [''d''], file_entry Img [''d'', ''x.png''], file_entry Pdf [''d'', ''z.pdf'']]"




text \<open>
  A stand-in for \<^verbatim>\<open>re.search\<close> in the examples: the pattern occurs in the string
  as it is written.
\<close>

fun literal_search :: "string \<Rightarrow> string \<Rightarrow> bool" where
  "literal_search p [] = (p = [])"
| "literal_search p (c # cs) = (prefix p (c # cs) \<or> literal_search p cs)"

text \<open>A folder with the folders a, b and c and an order file with the lines b and a.\<close>

definition hinted_dir :: node where
  "hinted_dir = Dir ''docs'' [Dir ''c'' [], File ''.order'' (Some (''b'' @ [CHR 0x0A] @ ''a'' @ [CHR 0x0A])),
                              Dir ''a'' [], Dir ''b'' []]"

text \<open>A folder with two pdf files and an empty order file.\<close>

definition unlisted_dir :: node where
  "unlisted_dir = Dir ''docs'' [File ''a.pdf'' None, File ''b.pdf'' None, File ''.order'' (Some [])]"

definition cars_dir :: node where
  "cars_dir = Dir ''services'' [Dir ''cars'' [File ''x.pdf'' None], Dir ''boats'' [File ''y.pdf'' None]]"


section \<open>Properties of the merger\<close>

lemma update_item_Inr:
  assumes "update_item_page_count w item = Inr item'"
  shows "kind item' = kind item" "path item' = path item" "only_images item' = only_images item"
    "label item' = label item" "page item' = page item" "counted_as w item item'"
  using assms
  by (cases "kind item"; auto simp: update_item_page_count_def console_print_file_def counted_as_def
      split: option.splits if_splits)+

lemma update_files_Inr:
  "update_files_page_count w tree = Inr tree1 \<Longrightarrow>
     list_all2 (\<lambda>a b. update_item_page_count w a = Inr b) tree tree1"
proof (induction tree arbitrary: tree1)
  case Nil
  then show ?case by simp
next
  case (Cons item rest)
  then show ?case by (auto split: sum.splits)
qed

lemma update_files_fields:
  assumes "update_files_page_count w tree = Inr tree1"
  shows "map kind tree1 = map kind tree" "map path tree1 = map path tree"
    "map only_images tree1 = map only_images tree" "map label tree1 = map label tree"
    "map page tree1 = map page tree" "list_all2 (counted_as w) tree tree1"
proof -
  note r = update_files_Inr[OF assms]
  show "map kind tree1 = map kind tree" using r by (induction rule: list_all2_induct) (auto dest: update_item_Inr)
  show "map path tree1 = map path tree" using r by (induction rule: list_all2_induct) (auto dest: update_item_Inr)
  show "map only_images tree1 = map only_images tree" using r by (induction rule: list_all2_induct) (auto dest: update_item_Inr)
  show "map label tree1 = map label tree" using r by (induction rule: list_all2_induct) (auto dest: update_item_Inr)
  show "map page tree1 = map page tree" using r by (induction rule: list_all2_induct) (auto dest: update_item_Inr)
  show "list_all2 (counted_as w) tree tree1" using r by (induction rule: list_all2_induct) (auto dest: update_item_Inr)
qed

lemma update_files_total:
  "readable w ps dpi tree \<Longrightarrow> \<exists>tree1. update_files_page_count w tree = Inr tree1"
proof (induction tree)
  case Nil
  then show ?case by simp
next
  case (Cons item rest)
  then obtain r where r: "update_files_page_count w rest = Inr r" by (auto simp: readable_def)
  from Cons.prems obtain i where "update_item_page_count w item = Inr i"
    by (cases "kind item") (auto simp: readable_def update_item_page_count_def)
  with r show ?case by simp
qed

lemma assign_reversed_kind: "map kind (assign_reversed l xs) = map kind xs"
  and assign_reversed_path: "map path (assign_reversed l xs) = map path xs"
  and assign_reversed_pages: "map pages (assign_reversed l xs) = map pages xs"
  and assign_reversed_only: "map only_images (assign_reversed l xs) = map only_images xs"
  and assign_reversed_label: "map label (assign_reversed l xs) = map label xs"
  by (induction l xs rule: assign_reversed.induct; auto split: option.splits)+

lemma assign_fields:
  "map kind (assign_folder_page_indices t) = map kind t"
  "map path (assign_folder_page_indices t) = map path t"
  "map pages (assign_folder_page_indices t) = map pages t"
  "map only_images (assign_folder_page_indices t) = map only_images t"
  "map label (assign_folder_page_indices t) = map label t"
  by (simp_all add: assign_folder_page_indices_def rev_map[symmetric] assign_reversed_kind
      assign_reversed_path assign_reversed_pages assign_reversed_only assign_reversed_label)


lemma insert_into_pdf_Inr:
  assumes "insert_into_pdf w st item ps dpi = Inr (st1, tmp)"
  shows "writer_pages st1 = writer_pages st @ inserted_pages w ps dpi item"
    "writer_outline st1 = writer_outline st" "page_index st1 = page_index st" "parents st1 = parents st"
  using assms
  by (cases "kind item"; auto simp: insert_into_pdf_def inserted_pages_def console_print_file_def
      split: option.splits if_splits)+

lemma insert_into_pdf_total:
  assumes "kind item = Pdf \<longrightarrow> pdf_reader w (path item) \<noteq> None"
    and "kind item = Img \<longrightarrow> img_to_pdf w (path item) ps dpi \<noteq> None"
  shows "\<exists>r. insert_into_pdf w st item ps dpi = Inr r"
  using assms by (cases "kind item") (auto simp: insert_into_pdf_def)

lemma add_outline_Inr:
  assumes "add_outline w st item par pl = Inr (st', r)"
  shows "page_index st' = page_index st" "writer_pages st' = writer_pages st" "parents st' = parents st"
    "tempfiles st' = tempfiles st"
    "page item \<noteq> None \<Longrightarrow> map title_and_page (writer_outline st')
        = map title_and_page (writer_outline st)
          @ (if kind item = Folder \<or> 0 < get_pages item then [(outline_title pl item, page item)] else [])"
  using assms
  by (auto simp: add_outline_def Let_def console_print_file_def outline_title_def title_and_page_def
      split: option.splits if_splits)

lemma add_outline_total:
  assumes "\<forall>t n p. \<not> outline_raises w t n p"
  shows "\<exists>r. add_outline w st item par pl = Inr r"
  using assms by (auto simp: add_outline_def Let_def split: option.splits)

lemma merge_item_Inr:
  assumes m: "merge_item w folders pl ps dpi st item = Inr (st', item')"
  shows "item' = item\<lparr>page := Some (page_index st)\<rparr>"
    and "page_index st' = page_index st + get_pages item"
    and "writer_pages st' = writer_pages st @ inserted_pages w ps dpi item"
    and "map title_and_page (writer_outline st')
           = map title_and_page (writer_outline st) @ outline_entry folders pl item'"
proof -
  from m obtain st1 tmp where i: "insert_into_pdf w st item ps dpi = Inr (st1, tmp)"
    by (auto simp: merge_item_def split: sum.splits)
  define st2 where "st2 = (case tmp of Some t \<Rightarrow> st1\<lparr>tempfiles := tempfiles st1 @ [t]\<rparr> | None \<Rightarrow> st1)"
  define st3 where "st3 = st2\<lparr>page_index := page_index st2 + get_pages item\<rparr>"
  define it where "it = item\<lparr>page := Some (page_index st2)\<rparr>"
  define par where "par = parents_get (parents st3) (parent (path item))"
  define skip where "skip = (if kind item = Img
                   then (case folders (parent (path item)) of
                           None \<Rightarrow> Inl (KeyError (parent (path item)))
                         | Some f \<Rightarrow> Inr (only_images f))
                   else Inr False)"
  have unf: "merge_item w folders pl ps dpi st item =
     (case skip of
        Inl e \<Rightarrow> Inl e
      | Inr sk \<Rightarrow>
          if sk then Inr (st3, it)
          else (case add_outline w st3 it par pl of
                  Inl e \<Rightarrow> Inl e
                | Inr (st4, outline) \<Rightarrow>
                    if kind item = Folder
                    then Inr (st4\<lparr>parents := (parents st4)(path item \<mapsto> outline)\<rparr>, it)
                    else Inr (st4, it)))"
    unfolding skip_def par_def it_def st3_def st2_def
    by (simp add: merge_item_def i Let_def)
  have s3: "writer_pages st3 = writer_pages st @ inserted_pages w ps dpi item"
    "writer_outline st3 = writer_outline st" "page_index st3 = page_index st + get_pages item"
    "page_index st2 = page_index st"
    using insert_into_pdf_Inr[OF i] by (auto simp: st3_def st2_def split: option.splits)
  have itp: "page it \<noteq> None" "kind it = kind item" "path it = path item" "get_pages it = get_pages item"
    by (simp_all add: it_def get_pages_def)
  from m obtain sk where sk: "skip = Inr sk" unfolding unf by (cases skip) auto
  have ski: "sk = (kind item = Img \<and> in_only_images folders item)"
    using sk by (auto simp: skip_def in_only_images_def split: if_splits option.splits)
  have it': "item' = it" using m unfolding unf sk by (auto split: if_splits sum.splits)
  show "item' = item\<lparr>page := Some (page_index st)\<rparr>" using it' s3(4) by (simp add: it_def)
  have fin: "page_index st' = page_index st3 \<and> writer_pages st' = writer_pages st3
      \<and> map title_and_page (writer_outline st')
           = map title_and_page (writer_outline st3) @ outline_entry folders pl it"
  proof (cases sk)
    case True
    with m have "st' = st3" unfolding unf sk by simp
    with True ski itp show ?thesis by (simp add: outline_entry_def in_only_images_def)
  next
    case False
    with m obtain st4 outline where a: "add_outline w st3 it par pl = Inr (st4, outline)"
      and o: "writer_outline st' = writer_outline st4" "page_index st' = page_index st4"
        "writer_pages st' = writer_pages st4"
      unfolding unf sk by (auto split: if_splits sum.splits)
    from add_outline_Inr(5)[OF a itp(1)] add_outline_Inr(1,2)[OF a] o False ski itp show ?thesis
      by (auto simp: outline_entry_def in_only_images_def)
  qed
  show "page_index st' = page_index st + get_pages item" using fin s3 by simp
  show "writer_pages st' = writer_pages st @ inserted_pages w ps dpi item" using fin s3 by simp
  show "map title_and_page (writer_outline st')
           = map title_and_page (writer_outline st) @ outline_entry folders pl item'"
    using fin s3 it' by simp
qed

lemma merge_item_total:
  assumes "kind item = Pdf \<longrightarrow> pdf_reader w (path item) \<noteq> None"
    and "kind item = Img \<longrightarrow> img_to_pdf w (path item) ps dpi \<noteq> None"
    and "kind item = Img \<longrightarrow> folders (parent (path item)) \<noteq> None"
    and "\<forall>t n p. \<not> outline_raises w t n p"
  shows "\<exists>r. merge_item w folders pl ps dpi st item = Inr r"
proof -
  from insert_into_pdf_total[OF assms(1,2)] obtain st1 tmp where
    i: "insert_into_pdf w st item ps dpi = Inr (st1, tmp)" by fastforce
  have "\<exists>r. add_outline w s it par pl = Inr r" for s it par
    by (rule add_outline_total[OF assms(4)])
  then have a: "\<exists>s' r. add_outline w s it par pl = Inr (s', r)" for s it par
    by (metis surj_pair)
  show ?thesis
  proof (cases "kind item = Img")
    case True
    with assms(3) obtain f where f: "folders (parent (path item)) = Some f" by auto
    show ?thesis
    proof (cases "only_images f")
      case True
      with \<open>kind item = Img\<close> f i show ?thesis by (simp add: merge_item_def Let_def)
    next
      case False
      with \<open>kind item = Img\<close> f i a show ?thesis
        by (simp add: merge_item_def Let_def split: sum.splits) (metis Inl_Inr_False)
    qed
  next
    case False
    with i a show ?thesis
      by (simp add: merge_item_def Let_def split: sum.splits) (metis Inl_Inr_False)
  qed
qed


lemma map_Some_snd_zip: "length xs = length cs \<Longrightarrow> map (\<lambda>x. Some (snd x)) (zip xs cs) = map Some cs"
  by (induction xs cs rule: list_induct2) auto

lemma map_fst_zip_same: "length xs = length cs \<Longrightarrow> map (\<lambda>p. f (fst p)) (zip xs cs) = map f xs"
  by (induction xs cs rule: list_induct2) auto

lemma length_start_pages: "length (start_pages c ns) = length ns"
  by (induction ns arbitrary: c) auto

lemma merge_loop_Inr:
  "merge_loop w folders pl ps dpi st xs = Inr (st', ys) \<Longrightarrow>
     ys = map (\<lambda>(item, c). item\<lparr>page := Some c\<rparr>) (zip xs (start_pages (page_index st) (map get_pages xs)))
     \<and> page_index st' = page_index st + sum_list (map get_pages xs)
     \<and> writer_pages st' = writer_pages st @ concat (map (inserted_pages w ps dpi) xs)
     \<and> map title_and_page (writer_outline st')
           = map title_and_page (writer_outline st) @ concat (map (outline_entry folders pl) ys)"
proof (induction xs arbitrary: st ys)
  case Nil
  then show ?case by simp
next
  case (Cons item rest)
  from Cons.prems obtain st1 item' rest' where
    1: "merge_item w folders pl ps dpi st item = Inr (st1, item')" and
    2: "merge_loop w folders pl ps dpi st1 rest = Inr (st', rest')" and
    3: "ys = item' # rest'"
    by (auto split: sum.splits prod.splits)
  from merge_item_Inr[OF 1] Cons.IH[OF 2] 3 show ?case by (simp add: add.assoc)
qed

lemma merge_loop_same:
  assumes "merge_loop w folders pl ps dpi st xs = Inr (st', ys)"
  shows "map kind ys = map kind xs" and "map get_pages ys = map get_pages xs"
    and "map path ys = map path xs" and "map label ys = map label xs" and "map pages ys = map pages xs"
    and "map page ys = map Some (start_pages (page_index st) (map get_pages xs))"
proof -
  let ?cs = "start_pages (page_index st) (map get_pages xs)"
  have ys: "ys = map (\<lambda>(item, c). item\<lparr>page := Some c\<rparr>) (zip xs ?cs)"
    using merge_loop_Inr[OF assms] by simp
  have len: "length xs = length ?cs" by (simp add: length_start_pages)
  have "map kind ys = map (\<lambda>p. kind (fst p)) (zip xs ?cs)"
    by (simp add: ys split_def)
  then show "map kind ys = map kind xs" by (simp only: map_fst_zip_same[OF len])
  have "map get_pages ys = map (\<lambda>p. get_pages (fst p)) (zip xs ?cs)"
    by (simp add: ys split_def get_pages_def)
  then show "map get_pages ys = map get_pages xs" by (simp only: map_fst_zip_same[OF len])
  have "map path ys = map (\<lambda>p. path (fst p)) (zip xs ?cs)"
    by (simp add: ys split_def)
  then show "map path ys = map path xs" by (simp only: map_fst_zip_same[OF len])
  have "map label ys = map (\<lambda>p. label (fst p)) (zip xs ?cs)"
    by (simp add: ys split_def)
  then show "map label ys = map label xs" by (simp only: map_fst_zip_same[OF len])
  have "map pages ys = map (\<lambda>p. pages (fst p)) (zip xs ?cs)"
    by (simp add: ys split_def)
  then show "map pages ys = map pages xs" by (simp only: map_fst_zip_same[OF len])
  have "map page ys = map (\<lambda>x. Some (snd x)) (zip xs ?cs)"
    by (simp add: ys split_def)
  then show "map page ys = map Some ?cs" by (simp only: map_Some_snd_zip[OF len])
qed

lemma merge_loop_total:
  assumes "\<forall>t n p. \<not> outline_raises w t n p"
  shows "\<forall>item\<in>set xs. (kind item = Pdf \<longrightarrow> pdf_reader w (path item) \<noteq> None)
          \<and> (kind item = Img \<longrightarrow> img_to_pdf w (path item) ps dpi \<noteq> None)
          \<and> (kind item = Img \<longrightarrow> folders (parent (path item)) \<noteq> None) \<Longrightarrow>
   \<exists>r. merge_loop w folders pl ps dpi st xs = Inr r"
proof (induction xs arbitrary: st)
  case Nil
  then show ?case by simp
next
  case (Cons item rest)
  then obtain r where "merge_item w folders pl ps dpi st item = Inr r"
    using merge_item_total[of item w ps dpi folders pl st] assms by auto
  moreover obtain st1 item' where "r = (st1, item')" by (cases r)
  moreover from Cons obtain r' where "merge_loop w folders pl ps dpi st1 rest = Inr r'" by fastforce
  ultimately show ?case by (cases r') auto
qed

lemma merge_loop_next:
  "merge_loop w folders pl ps dpi st xs = Inr (st', ys) \<Longrightarrow>
     next_content_page ys (page_index st') = Some (page_index st)"
proof (induction xs arbitrary: st ys)
  case Nil
  then show ?case by simp
next
  case (Cons item rest)
  from Cons.prems obtain st1 item' rest' where
    1: "merge_item w folders pl ps dpi st item = Inr (st1, item')" and
    2: "merge_loop w folders pl ps dpi st1 rest = Inr (st', rest')" and
    3: "ys = item' # rest'"
    by (auto split: sum.splits prod.splits)
  from merge_item_Inr[OF 1] Cons.IH[OF 2] 3 show ?case by (simp add: get_pages_def)
qed

lemma merge_loop_backfill:
  "merge_loop w folders pl ps dpi st xs = Inr (st', ys) \<Longrightarrow> i < length ys \<Longrightarrow>
   get_pages (ys ! i) = 0 \<Longrightarrow>
     page (ys ! i) = next_content_page (drop (Suc i) ys) (page_index st')"
proof (induction xs arbitrary: st ys i)
  case Nil
  then show ?case by simp
next
  case (Cons item rest)
  from Cons.prems(1) obtain st1 item' rest' where
    1: "merge_item w folders pl ps dpi st item = Inr (st1, item')" and
    2: "merge_loop w folders pl ps dpi st1 rest = Inr (st', rest')" and
    3: "ys = item' # rest'"
    by (auto split: sum.splits prod.splits)
  show ?case
  proof (cases i)
    case 0
    with Cons.prems 3 have "get_pages item' = 0" by simp
    with merge_item_Inr[OF 1] have "page item' = Some (page_index st)" "page_index st1 = page_index st"
      by (simp_all add: get_pages_def)
    with merge_loop_next[OF 2] 0 3 show ?thesis by simp
  next
    case (Suc j)
    with Cons.prems 3 Cons.IH[OF 2, of j] show ?thesis by simp
  qed
qed

lemma folders_of_fold_dom:
  "(fold (\<lambda>x m. if kind x = Folder then m(path x \<mapsto> x) else m) tree m0 p \<noteq> None)
     = (m0 p \<noteq> None \<or> p \<in> set (folder_paths tree))"
  by (induction tree arbitrary: m0) (auto simp: folder_paths_def)

lemma folders_of_dom: "(folders_of tree p \<noteq> None) = (p \<in> set (folder_paths tree))"
  unfolding folders_of_def by (subst folders_of_fold_dom) simp

lemma folder_paths_cong:
  "map kind xs = map kind ys \<Longrightarrow> map path xs = map path ys \<Longrightarrow> folder_paths xs = folder_paths ys"
proof (induction xs arbitrary: ys)
  case Nil
  then show ?case by (simp add: folder_paths_def)
next
  case (Cons x xs)
  then obtain y ys' where "ys = y # ys'" by (cases ys) auto
  with Cons show ?case by (auto simp: folder_paths_def)
qed

lemma folders_only_fold:
  "map kind xs = map kind ys \<Longrightarrow> map path xs = map path ys \<Longrightarrow> map only_images xs = map only_images ys \<Longrightarrow>
   map_option only_images (m1 p) = map_option only_images (m2 p) \<Longrightarrow>
   map_option only_images (fold (\<lambda>x m. if kind x = Folder then m(path x \<mapsto> x) else m) xs m1 p)
     = map_option only_images (fold (\<lambda>x m. if kind x = Folder then m(path x \<mapsto> x) else m) ys m2 p)"
proof (induction xs arbitrary: ys m1 m2)
  case Nil
  then show ?case by simp
next
  case (Cons x xs)
  then obtain y ys' where y: "ys = y # ys'" by (cases ys) auto
  with Cons.prems have e: "kind x = kind y" "path x = path y" "only_images x = only_images y" by auto
  let ?F = "\<lambda>x m. if kind x = Folder then m(path x \<mapsto> x) else m"
  have "map_option only_images (fold ?F xs (?F x m1) p) = map_option only_images (fold ?F ys' (?F y m2) p)"
    by (rule Cons.IH) (use Cons.prems y e in auto)
  then show ?case unfolding y by simp
qed

lemma in_only_images_cong:
  assumes "map kind xs = map kind ys" "map path xs = map path ys" "map only_images xs = map only_images ys"
    and "path e = path e'"
  shows "in_only_images (folders_of xs) e = in_only_images (folders_of ys) e'"
proof -
  have "map_option only_images (folders_of xs (parent (path e))) = map_option only_images (folders_of ys (parent (path e)))"
    unfolding folders_of_def by (rule folders_only_fold[OF assms(1-3)]) simp
  then show ?thesis using assms(4) by (auto simp: in_only_images_def split: option.splits)
qed


lemma list_all2_map_eq:
  "list_all2 P xs ys \<Longrightarrow> map f zs = map f ys \<Longrightarrow> (\<And>a b c. P a b \<Longrightarrow> f c = f b \<Longrightarrow> Q a c) \<Longrightarrow>
   list_all2 Q xs zs"
proof (induction arbitrary: zs rule: list_all2_induct)
  case Nil
  then show ?case by simp
next
  case (Cons x xs y ys)
  then obtain z zs' where "zs = z # zs'" by (cases zs) auto
  with Cons show ?case by auto
qed

lemma merge_prepared:
  assumes "merge w tree pl ps dpi = Inr (st, tree')"
  obtains tree2 where "merge_loop w (folders_of tree2) pl ps dpi init_state tree2 = Inr (st, tree')"
    and "map kind tree2 = map kind tree" and "map path tree2 = map path tree"
    and "map only_images tree2 = map only_images tree" and "map label tree2 = map label tree"
    and "list_all2 (counted_as w) tree tree2"
proof -
  from assms obtain tree1 where u: "update_files_page_count w tree = Inr tree1"
    and l: "merge_loop w (folders_of (assign_folder_page_indices tree1)) pl ps dpi init_state
              (assign_folder_page_indices tree1) = Inr (st, tree')"
    by (auto simp: merge_def Let_def split: sum.splits)
  note f = update_files_fields[OF u]
  have "list_all2 (counted_as w) tree (assign_folder_page_indices tree1)"
    by (rule list_all2_map_eq[OF f(6), where f = pages]) (auto simp: assign_fields counted_as_def split: kind.splits option.splits)
  with l f show ?thesis by (intro that[of "assign_folder_page_indices tree1"]) (simp_all add: assign_fields)
qed

lemma inserted_pages_eq:
  "kind x = kind y \<Longrightarrow> path x = path y \<Longrightarrow> inserted_pages w ps dpi x = inserted_pages w ps dpi y"
  by (cases "kind y") (simp_all add: inserted_pages_def)

lemma inserted_pages_cong:
  "map kind xs = map kind ys \<Longrightarrow> map path xs = map path ys \<Longrightarrow>
   map (inserted_pages w ps dpi) xs = map (inserted_pages w ps dpi) ys"
proof (induction xs arbitrary: ys)
  case Nil
  then show ?case by simp
next
  case (Cons x xs)
  then obtain y ys' where "ys = y # ys'" by (cases ys) auto
  with Cons show ?case by (auto intro: inserted_pages_eq)
qed

lemma outline_entry_cong:
  assumes "map kind xs = map kind ys" "map path xs = map path ys" "map only_images xs = map only_images ys"
  shows "outline_entry (folders_of xs) pl = outline_entry (folders_of ys) pl"
  by (rule ext) (simp add: outline_entry_def in_only_images_cong[OF assms refl])

lemma merge_facts:
  assumes m: "merge w tree pl ps dpi = Inr (st, tree')"
  shows "map kind tree' = map kind tree" and "map path tree' = map path tree"
    and "map label tree' = map label tree"
    and "list_all2 (counted_as w) tree tree'"
    and "map page tree' = map Some (start_pages 0 (map get_pages tree'))"
    and "page_index st = sum_list (map get_pages tree')"
    and "writer_pages st = concat (map (inserted_pages w ps dpi) tree)"
    and "map title_and_page (writer_outline st) = concat (map (outline_entry (folders_of tree) pl) tree')"
    and "\<And>i. i < length tree' \<Longrightarrow> get_pages (tree' ! i) = 0 \<Longrightarrow>
           page (tree' ! i) = next_content_page (drop (Suc i) tree') (page_index st)"
proof -
  from merge_prepared[OF m] obtain tree2 where
    l: "merge_loop w (folders_of tree2) pl ps dpi init_state tree2 = Inr (st, tree')"
    and k: "map kind tree2 = map kind tree" and p: "map path tree2 = map path tree"
    and o: "map only_images tree2 = map only_images tree" and lb: "map label tree2 = map label tree"
    and c: "list_all2 (counted_as w) tree tree2" by blast
  note s = merge_loop_same[OF l]
  note r = merge_loop_Inr[OF l]
  show "map kind tree' = map kind tree" using s(1) k by simp
  show "map path tree' = map path tree" using s(3) p by simp
  show "map label tree' = map label tree" using s(4) lb by simp
  show "list_all2 (counted_as w) tree tree'"
    by (rule list_all2_map_eq[OF c, where f = pages])
       (auto simp: s(5) counted_as_def split: kind.splits option.splits)
  show "map page tree' = map Some (start_pages 0 (map get_pages tree'))"
    using s(6) s(2) by (simp add: init_state_def)
  show "page_index st = sum_list (map get_pages tree')"
    using r s(2) by (simp add: init_state_def)
  show "writer_pages st = concat (map (inserted_pages w ps dpi) tree)"
    using r inserted_pages_cong[OF k p, of w ps dpi] by (simp add: init_state_def)
  show "map title_and_page (writer_outline st) = concat (map (outline_entry (folders_of tree) pl) tree')"
    using r outline_entry_cong[OF k p o, of pl] by (simp add: init_state_def)
  show "\<And>i. i < length tree' \<Longrightarrow> get_pages (tree' ! i) = 0 \<Longrightarrow>
           page (tree' ! i) = next_content_page (drop (Suc i) tree') (page_index st)"
    by (rule merge_loop_backfill[OF l])
qed

lemma merge_total:
  assumes d: "described tree" and r: "readable w ps dpi tree" and a: "\<forall>t n p. \<not> outline_raises w t n p"
  shows "\<exists>st tree'. merge w tree pl ps dpi = Inr (st, tree')"
proof -
  from update_files_total[OF r] obtain tree1 where u: "update_files_page_count w tree = Inr tree1" by blast
  note f = update_files_fields[OF u]
  let ?t2 = "assign_folder_page_indices tree1"
  have k: "map kind ?t2 = map kind tree" and p: "map path ?t2 = map path tree"
    using f by (simp_all add: assign_fields)
  have len: "length ?t2 = length tree" using k by (metis length_map)
  have "(kind item = Pdf \<longrightarrow> pdf_reader w (path item) \<noteq> None)
          \<and> (kind item = Img \<longrightarrow> img_to_pdf w (path item) ps dpi \<noteq> None)
          \<and> (kind item = Img \<longrightarrow> folders_of ?t2 (parent (path item)) \<noteq> None)"
    if "item \<in> set ?t2" for item
  proof -
    from that obtain i where i: "i < length tree" "?t2 ! i = item"
      using len by (auto simp: in_set_conv_nth)
    have e: "kind (tree ! i) = kind item" "path (tree ! i) = path item"
      using i len k p by (metis nth_map)+
    have mem: "tree ! i \<in> set tree" using i by simp
    from d mem e have "kind item = Img \<longrightarrow> parent (path item) \<in> set (folder_paths tree)"
      by (auto simp: described_def list_all_iff)
    moreover have "folder_paths ?t2 = folder_paths tree" by (rule folder_paths_cong[OF k p])
    ultimately have "kind item = Img \<longrightarrow> folders_of ?t2 (parent (path item)) \<noteq> None"
      using folders_of_dom[of ?t2 "parent (path item)"] by simp
    with r mem e show ?thesis by (auto simp: readable_def list_all_iff)
  qed
  then have "\<exists>r. merge_loop w (folders_of ?t2) pl ps dpi init_state ?t2 = Inr r"
    by (intro merge_loop_total[OF a]) blast
  then show ?thesis using u by (auto simp: merge_def Let_def)
qed

lemma folder_counts_zero:
  assumes "described tree" "list_all2 (counted_as w) tree tree'" "map kind tree' = map kind tree"
  shows "\<forall>e\<in>set tree'. kind e = Folder \<longrightarrow> get_pages e = 0"
proof (intro ballI impI)
  fix e assume e: "e \<in> set tree'" "kind e = Folder"
  have len: "length tree' = length tree" using assms(3) by (metis length_map)
  from e obtain i where i: "i < length tree'" "tree' ! i = e" by (auto simp: in_set_conv_nth)
  have k: "kind (tree ! i) = Folder" using i e len assms(3) by (metis nth_map)
  have "tree ! i \<in> set tree" using i len by simp
  with assms(1) k have "pages (tree ! i) = None" by (auto simp: described_def list_all_iff)
  moreover have "counted_as w (tree ! i) (tree' ! i)"
    by (rule list_all2_nthD[OF assms(2)]) (use i len in simp)
  ultimately show "get_pages e = 0" using k i by (simp add: counted_as_def get_pages_def)
qed

text \<open>The merger does not read the \<open>title\<close> of an entry.\<close>

lemma untitled_fields [simp]:
  "kind (untitled e) = kind e" "path (untitled e) = path e" "labels (untitled e) = labels e"
  "only_images (untitled e) = only_images e" "label (untitled e) = label e"
  "pages (untitled e) = pages e" "page (untitled e) = page e" "get_pages (untitled e) = get_pages e"
  by (simp_all add: untitled_def get_pages_def)

lemma untitled_update [simp]:
  "(untitled e)\<lparr>page := x\<rparr> = untitled (e\<lparr>page := x\<rparr>)"
  "(untitled e)\<lparr>pages := y\<rparr> = untitled (e\<lparr>pages := y\<rparr>)"
  by (simp_all add: untitled_def)














section \<open>Properties of the walker\<close>

lemma walk_root_filtered:
  assumes "inc = Some pats" "pats \<noteq> []" "\<forall>p\<in>set pats. \<not> search p ''.''"
  shows "\<not> match_filters search [] inc exc"
  using assms by (simp add: match_filters_def truthy_def patterns_def list_ex_iff)

lemma walk_pruned:
  "\<not> match_filters search r inc exc \<Longrightarrow> walk search hash inc exc p r nd = []"
  by (subst walk.simps) simp

lemma walk_unfold:
  "walk search hash inc exc p r nd =
     (if should_ignore p nd \<or> \<not> match_filters search r inc exc then []
      else (p, nd) # concat (map (child_part search hash inc exc p r) (ordered_children hash nd)))"
  by (subst walk.simps) (simp add: child_part_def[abs_def])

































section \<open>Properties of the description\<close>

lemma described_folders_snoc:
  "described_folders (files @ [(p, nd)])
     = (if is_dir nd then (described_folders files)(p \<mapsto> describe_folder p nd)
        else described_folders files)"
  by (simp add: described_folders_def)

lemma described_folders_entry:
  "described_folders files q = Some f \<Longrightarrow> kind f = Folder \<and> path f = q \<and> pages f = None"
proof (induction files arbitrary: q f rule: rev_induct)
  case Nil
  then show ?case by (simp add: described_folders_def)
next
  case (snoc x files)
  obtain p nd where x: "x = (p, nd)" by (cases x)
  show ?case
  proof (cases "is_dir nd \<and> q = p")
    case True
    with snoc.prems x have "f = describe_folder p nd" by (simp add: described_folders_snoc)
    with True show ?thesis by (simp add: describe_folder_def Let_def)
  next
    case False
    with snoc.prems x have "described_folders files q = Some f"
      by (auto simp: described_folders_snoc split: if_splits)
    then show ?thesis by (rule snoc.IH)
  qed
qed

lemma dom_described_folders:
  "dom (described_folders files) = {p. \<exists>nd. (p, nd) \<in> set files \<and> is_dir nd}"
proof (induction files rule: rev_induct)
  case Nil
  then show ?case by (simp add: described_folders_def)
next
  case (snoc x files)
  obtain p nd where x: "x = (p, nd)" by (cases x)
  show ?case unfolding x described_folders_snoc using snoc by auto
qed

lemma describe_file_kind:
  "describe_file p f = Some desc \<Longrightarrow> kind desc \<noteq> Folder \<and> path desc = p"
  by (auto simp: describe_file_def Let_def split: if_splits)

lemma describe_loop_tree:
  assumes "\<And>p f. folders p = Some f \<Longrightarrow> kind f = Folder \<and> path f = p \<and> pages f = None"
  shows "describe_loop folders files = Inr tree \<Longrightarrow>
     (\<forall>e\<in>set tree. kind e = Folder \<longrightarrow> pages e = None)
     \<and> (\<forall>e\<in>set tree. kind e \<noteq> Folder \<longrightarrow> parent (path e) \<in> dom folders)
     \<and> set (folder_paths tree) = {p. \<exists>nd. (p, nd) \<in> set files \<and> is_dir nd}"
proof (induction files arbitrary: tree)
  case Nil
  then show ?case by (simp add: folder_paths_def)
next
  case (Cons x files)
  obtain p nd where x: "x = (p, nd)" by (cases x)
  show ?case
  proof (cases "is_dir nd")
    case True
    with Cons.prems x obtain f t where f: "folders p = Some f" and t: "describe_loop folders files = Inr t"
      and tree: "tree = f # t"
      by (auto split: option.splits sum.splits)
    from assms[OF f] Cons.IH[OF t] tree True x show ?thesis
      by (auto simp: folder_paths_def)
  next
    case False
    with Cons.prems x obtain f t where f: "folders (parent p) = Some f" and t: "describe_loop folders files = Inr t"
      and tree: "tree = (case describe_file p f of Some desc \<Rightarrow> desc # t | None \<Rightarrow> t)"
      by (auto split: option.splits sum.splits)
    show ?thesis
    proof (cases "describe_file p f")
      case None
      with Cons.IH[OF t] tree False x show ?thesis by auto
    next
      case (Some desc)
      from describe_file_kind[OF Some] Cons.IH[OF t] tree Some False x f show ?thesis
        by (auto simp: folder_paths_def)
    qed
  qed
qed

lemma describe_loop_total:
  "\<forall>(p, nd)\<in>set files. (if is_dir nd then p else parent p) \<in> dom folders \<Longrightarrow>
   \<exists>tree. describe_loop folders files = Inr tree"
proof (induction files)
  case Nil
  then show ?case by simp
next
  case (Cons x files)
  obtain p nd where x: "x = (p, nd)" by (cases x)
  from Cons obtain t where t: "describe_loop folders files = Inr t" by auto
  show ?case
  proof (cases "is_dir nd")
    case True
    with Cons.prems x obtain f where "folders p = Some f" by auto
    with True t x show ?thesis by simp
  next
    case False
    with Cons.prems x obtain f where "folders (parent p) = Some f" by auto
    with False t x show ?thesis by (simp split: option.splits)
  qed
qed

lemma build_tree_described:
  assumes "build_tree_description files = Inr tree"
  shows "described tree"
proof -
  note t = describe_loop_tree[of "described_folders files" files tree, OF described_folders_entry
      assms[unfolded build_tree_description_def]]
  have "parent (path e) \<in> set (folder_paths tree)" if "e \<in> set tree" "kind e = Img" for e
    using t that by (auto simp: dom_described_folders)
  with t show ?thesis by (auto simp: described_def list_all_iff)
qed

lemma walk_file_parent:
  "is_dir nd \<Longrightarrow> (q, c) \<in> set (walk search hash inc exc p r nd) \<Longrightarrow> \<not> is_dir c \<Longrightarrow>
   \<exists>d. (parent q, d) \<in> set (walk search hash inc exc p r nd) \<and> is_dir d"
proof (induction search hash inc exc p r nd arbitrary: q c rule: walk.induct)
  case (1 search hash inc exc p r nd)
  from "1.prems" have ok: "\<not> should_ignore p nd" "match_filters search r inc exc"
    by (auto simp: walk_unfold[of search hash inc exc p r nd] split: if_splits)
  then have w: "walk search hash inc exc p r nd
      = (p, nd) # concat (map (child_part search hash inc exc p r) (ordered_children hash nd))"
    by (simp add: walk_unfold[of search hash inc exc p r nd])
  from "1.prems" w obtain ch where ch: "ch \<in> set (ordered_children hash nd)"
    "(q, c) \<in> set (child_part search hash inc exc p r ch)"
    by auto
  show ?case
  proof (cases "is_dir ch")
    case True
    with ch have v: "is_valid ch" "\<not> (startswith_dot (node_name ch) \<or> node_name ch \<in> set [''.order'', ''.label'', ''.title'', ''.dpi''])"
      and x: "(q, c) \<in> set (walk search hash inc exc (p @ [node_name ch]) (r @ [node_name ch]) ch)"
      and cp: "child_part search hash inc exc p r ch = walk search hash inc exc (p @ [node_name ch]) (r @ [node_name ch]) ch"
      by (auto simp: child_part_def split: if_splits)
    from "1.IH"[OF ok(1) _ ch(1) _ v(2) True True x "1.prems"(3)] ok(2) v(1)
    obtain d where "(parent q, d) \<in> set (walk search hash inc exc (p @ [node_name ch]) (r @ [node_name ch]) ch)" "is_dir d"
      by auto
    with ch(1) cp show ?thesis unfolding w by force
  next
    case False
    with ch have "q = p @ [node_name ch]" by (auto simp: child_part_def split: if_splits)
    then have "parent q = p" by (simp add: parent_def)
    with "1.prems"(1) show ?thesis unfolding w by auto
  qed
qed

lemma walk_described:
  assumes "is_dir nd"
  shows "\<exists>tree. build_tree_description (walk search hash inc exc p r nd) = Inr tree \<and> described tree"
proof -
  let ?files = "walk search hash inc exc p r nd"
  have "\<forall>(q, c)\<in>set ?files. (if is_dir c then q else parent q) \<in> dom (described_folders ?files)"
    using walk_file_parent[OF assms] by (auto simp: dom_described_folders)
  from describe_loop_total[OF this] obtain tree where "build_tree_description ?files = Inr tree"
    by (auto simp: build_tree_description_def)
  with build_tree_described show ?thesis by blast
qed

section \<open>The claims\<close>

text \<open>
  C1.  Determinism.  With an order file, the children that it does not list are ordered
  by the hash of their names, which differs from process to process.  The same folder,
  with an empty order file and the files a.pdf and b.pdf, is selected in two orders by two
  processes with different hashes.
\<close>

theorem selection_depends_on_hash:
  "map_sum id (map fst) (select_paths literal_search (\<lambda>s. if s = ''a.pdf'' then 1 else 2)
        [''home''] unlisted_dir None None)
     = Inr [[''home'', ''docs''], [''home'', ''docs'', ''a.pdf''], [''home'', ''docs'', ''b.pdf'']]
   \<and> map_sum id (map fst) (select_paths literal_search (\<lambda>s. if s = ''a.pdf'' then 2 else 1)
        [''home''] unlisted_dir None None)
     = Inr [[''home'', ''docs''], [''home'', ''docs'', ''b.pdf''], [''home'', ''docs'', ''a.pdf'']]"
  by code_simp

text \<open>
  C2.  Order-hint precedence.  The key of a child that is not in the hint list is the
  number of hints plus the hash of its lowered name, and that hash may be negative.
  With the hints b and a, the folders a, b and c, and a process in which the hash of
  ``c'' is -5, the key of c is -3 and the order is c, b, a.
\<close>

theorem unhinted_child_sorts_first:
  "map_sum id (map fst) (select_paths literal_search (\<lambda>s. - 5) [''home''] hinted_dir None None)
     = Inr [[''home'', ''docs''], [''home'', ''docs'', ''c''], [''home'', ''docs'', ''b''],
            [''home'', ''docs'', ''a'']]"
  by code_simp

text \<open>
  C3.  Empty-folder backward fill.  On a tree as \<^verbatim>\<open>build_tree_description\<close> makes
  it, \<^verbatim>\<open>merge\<close> returns when all content can be read and the writer takes every
  outline request.  Whenever it returns, \<^verbatim>\<open>page_index\<close> ends at the total page count,
  and the \<open>page\<close> of every folder entry (so of every folder whose subtree has no pages)
  is the \<open>page\<close> of the nearest later entry that has pages, and the final
  \<^verbatim>\<open>page_index\<close> when no later entry has any.
\<close>

theorem empty_folder_backward_fill:
  assumes "described tree"
  shows "(readable w ps dpi tree \<and> (\<forall>t n p. \<not> outline_raises w t n p) \<longrightarrow>
            (\<exists>st tree'. merge w tree pl ps dpi = Inr (st, tree')))
       \<and> (\<forall>st tree'. merge w tree pl ps dpi = Inr (st, tree') \<longrightarrow>
             page_index st = sum_list (map get_pages tree')
           \<and> (\<forall>i < length tree'. kind (tree' ! i) = Folder \<longrightarrow>
                 (\<exists>p. page (tree' ! i) = Some p
                    \<and> next_content_page (drop (Suc i) tree') (page_index st) = Some p)))"
proof (intro conjI allI impI)
  assume "readable w ps dpi tree \<and> (\<forall>t n p. \<not> outline_raises w t n p)"
  then show "\<exists>st tree'. merge w tree pl ps dpi = Inr (st, tree')"
    using merge_total[OF assms] by blast
next
  fix st tree' assume m: "merge w tree pl ps dpi = Inr (st, tree')"
  note f = merge_facts[OF m]
  show "page_index st = sum_list (map get_pages tree')" by (rule f(6))
  fix i assume i: "i < length tree'" and k: "kind (tree' ! i) = Folder"
  have "tree' ! i \<in> set tree'" using i by simp
  with folder_counts_zero[OF assms f(4) f(1)] k have z: "get_pages (tree' ! i) = 0" by blast
  have "page (tree' ! i) = map page tree' ! i" using i by simp
  also have "\<dots> = Some (start_pages 0 (map get_pages tree') ! i)"
    unfolding f(5) using i by (simp add: length_start_pages)
  finally have a: "page (tree' ! i) = Some (start_pages 0 (map get_pages tree') ! i)" .
  have b: "next_content_page (drop (Suc i) tree') (page_index st)
             = Some (start_pages 0 (map get_pages tree') ! i)"
    using f(9)[OF i z] a by simp
  from a b
  show "\<exists>p. page (tree' ! i) = Some p
           \<and> next_content_page (drop (Suc i) tree') (page_index st) = Some p"
    by blast
qed

text \<open>
  A folder with a pdf of 3 pages and then an empty folder: the empty folder, last in
  the tree, is at page 3, the total page count.
\<close>

theorem empty_folder_backward_fill_example:
  "described backfill_tree \<and> readable example_world None 150 backfill_tree
   \<and> (\<forall>t n p. \<not> outline_raises example_world t n p)
   \<and> (\<exists>st tree'. merge example_world backfill_tree False None 150 = Inr (st, tree')
        \<and> map kind tree' = [Folder, Pdf, Folder] \<and> map get_pages tree' = [0, 3, 0]
        \<and> page_index st = 3 \<and> page (tree' ! 2) = Some 3)"
proof -
  have d: "described backfill_tree" by code_simp
  have r: "readable example_world None 150 backfill_tree" by code_simp
  have a: "\<forall>t n p. \<not> outline_raises example_world t n p" by (simp add: example_world_def)
  note t = empty_folder_backward_fill[OF d, of example_world None 150 False]
  from t r a obtain st tree' where m: "merge example_world backfill_tree False None 150 = Inr (st, tree')"
    by blast
  have "(case merge example_world backfill_tree False None 150 of
           Inr (st, t) \<Rightarrow> map kind t = [Folder, Pdf, Folder] \<and> map get_pages t = [0, 3, 0]
         | Inl e \<Rightarrow> False)"
    by code_simp
  with m have k: "map kind tree' = [Folder, Pdf, Folder]" and g: "map get_pages tree' = [0, 3, 0]"
    by simp_all
  from k have len: "length tree' = 3" by (metis length_map length_Cons list.size(3) numeral_3_eq_3)
  from k len have k2: "kind (tree' ! 2) = Folder"
    by (metis nth_map nth_Cons_0 nth_Cons_Suc numeral_2_eq_2 lessI numeral_3_eq_3)
  from t m have fin: "page_index st = sum_list (map get_pages tree')"
    and bf: "\<forall>i < length tree'. kind (tree' ! i) = Folder \<longrightarrow>
                 (\<exists>p. page (tree' ! i) = Some p
                    \<and> next_content_page (drop (Suc i) tree') (page_index st) = Some p)"
    by blast+
  from fin g have f3: "page_index st = 3" by simp
  have dr': "drop (Suc 2) tree' = []" using len by simp
  from bf[rule_format, of 2] k2 len
  have "\<exists>p. page (tree' ! 2) = Some p \<and> next_content_page (drop (Suc 2) tree') (page_index st) = Some p"
    by simp
  then have p2: "page (tree' ! 2) = Some 3" unfolding dr' f3 by auto
  have "\<exists>st tree'. merge example_world backfill_tree False None 150 = Inr (st, tree')
        \<and> map kind tree' = [Folder, Pdf, Folder] \<and> map get_pages tree' = [0, 3, 0]
        \<and> page_index st = 3 \<and> page (tree' ! 2) = Some 3"
    using m k g f3 p2 by (intro exI[of _ st] exI[of _ tree']) (simp only: simp_thms)
  with d r a show ?thesis by (simp only: simp_thms)
qed

text \<open>
  C4.  Content read errors.  The handlers that should report unreadable content and go
  on call \<^verbatim>\<open>console.print\<close> with \<^verbatim>\<open>file=sys.stderr\<close>, which that method does not
  take: the handler raises TypeError and the run stops.  A folder with a pdf that cannot
  be opened stops \<^verbatim>\<open>merge\<close> in \<^verbatim>\<open>_update_files_page_count\<close>.  An image that
  cannot be converted is given one page there, without being opened, and stops
  \<^verbatim>\<open>merge\<close> in \<^verbatim>\<open>_insert_into_pdf\<close>.
\<close>

theorem unreadable_content_aborts:
  "map_sum id (\<lambda>r. ()) (merge unreadable_world unreadable_tree False None 150) = Inl TypeError
   \<and> map_sum id (map pages) (update_files_page_count broken_image_world broken_image_tree)
       = Inr [None, Some 1, Some 3]
   \<and> map_sum id (\<lambda>r. ()) (merge broken_image_world broken_image_tree False None 150) = Inl TypeError"
  by code_simp

text \<open>
  C5.  The filters are applied to the root itself, whose relative path is the string
  ``.'': with a list of include patterns that is not empty and of which none matches
  ``.'', \<^verbatim>\<open>select_paths\<close> selects nothing.
\<close>

theorem root_filtered_out:
  assumes "inc = Some pats" and "pats \<noteq> []" and "\<forall>p\<in>set pats. \<not> search p ''.''"
  shows "select_paths search hash base root inc exc = Inr []"
  using assms walk_root_filtered[of inc pats search exc]
  by (simp add: select_paths_def Let_def walk_pruned)

text \<open>
  The folder services holds the folders cars and boats; including ``cars'' selects
  nothing at all.
\<close>

theorem root_filtered_out_example:
  "\<not> literal_search ''cars'' ''.'' \<and>
   select_paths literal_search (\<lambda>s. 0) [''home''] cars_dir (Some [''cars'']) None = Inr []"
  using root_filtered_out[of "Some [''cars'']" "[''cars'']" literal_search "\<lambda>s. 0" "[''home'']" cars_dir None]
  by simp

text \<open>
  C6.  Pass 1 pagination.  On a tree as \<^verbatim>\<open>build_tree_description\<close> makes it,
  \<^verbatim>\<open>merge\<close> returns when all content can be read and the writer takes every outline
  request.  Whenever it returns, the \<open>page\<close> values of the entries, in emission order,
  are the values of a cursor that starts at 0 and moves on by the \<open>pages\<close> of each
  entry, and the cursor ends at their sum; the \<open>pages\<close> of a pdf is its number of
  pages, that of an image is 1, and a folder has none, so it moves the cursor by 0.
\<close>

theorem pagination_pass:
  assumes "described tree"
  shows "(readable w ps dpi tree \<and> (\<forall>t n p. \<not> outline_raises w t n p) \<longrightarrow>
            (\<exists>st tree'. merge w tree pl ps dpi = Inr (st, tree')))
       \<and> (\<forall>st tree'. merge w tree pl ps dpi = Inr (st, tree') \<longrightarrow>
             map page tree' = map Some (start_pages 0 (map get_pages tree'))
           \<and> page_index st = sum_list (map get_pages tree')
           \<and> list_all2 (counted_as w) tree tree'
           \<and> (\<forall>e\<in>set tree'. kind e = Folder \<longrightarrow> get_pages e = 0))"
proof (intro conjI allI impI)
  assume "readable w ps dpi tree \<and> (\<forall>t n p. \<not> outline_raises w t n p)"
  then show "\<exists>st tree'. merge w tree pl ps dpi = Inr (st, tree')"
    using merge_total[OF assms] by blast
next
  fix st tree' assume m: "merge w tree pl ps dpi = Inr (st, tree')"
  note f = merge_facts[OF m]
  show "map page tree' = map Some (start_pages 0 (map get_pages tree'))" by (rule f(5))
  show "page_index st = sum_list (map get_pages tree')" by (rule f(6))
  show "list_all2 (counted_as w) tree tree'" by (rule f(4))
  show "\<forall>e\<in>set tree'. kind e = Folder \<longrightarrow> get_pages e = 0"
    by (rule folder_counts_zero[OF assms f(4) f(1)])
qed

text \<open>
  The example of the specification: a folder, a pdf of 3 pages, a folder and an image
  start at pages 0, 0, 3 and 3.
\<close>

theorem pagination_pass_example:
  "described example_tree \<and> readable example_world None 150 example_tree
   \<and> (\<forall>t n p. \<not> outline_raises example_world t n p)
   \<and> (\<exists>st tree'. merge example_world example_tree False None 150 = Inr (st, tree')
        \<and> map get_pages tree' = [0, 3, 0, 1]
        \<and> map page tree' = [Some 0, Some 0, Some 3, Some 3] \<and> page_index st = 4)"
proof -
  have d: "described example_tree" by code_simp
  have r: "readable example_world None 150 example_tree" by code_simp
  have a: "\<forall>t n p. \<not> outline_raises example_world t n p" by (simp add: example_world_def)
  note t = pagination_pass[OF d, of example_world None 150 False]
  from t r a obtain st tree' where m: "merge example_world example_tree False None 150 = Inr (st, tree')"
    by blast
  have "(case merge example_world example_tree False None 150 of
           Inr (st, t) \<Rightarrow> map get_pages t = [0, 3, 0, 1] | Inl e \<Rightarrow> False)"
    by code_simp
  with m have g: "map get_pages tree' = [0, 3, 0, 1]" by simp
  from t m have "map page tree' = map Some (start_pages 0 (map get_pages tree'))"
    "page_index st = sum_list (map get_pages tree')" by blast+
  with g have "map page tree' = [Some 0, Some 0, Some 3, Some 3]" "page_index st = 4" by simp_all
  then have "\<exists>st tree'. merge example_world example_tree False None 150 = Inr (st, tree')
        \<and> map get_pages tree' = [0, 3, 0, 1]
        \<and> map page tree' = [Some 0, Some 0, Some 3, Some 3] \<and> page_index st = 4"
    using m g by (intro exI[of _ st] exI[of _ tree']) (simp only: simp_thms)
  with d r a show ?thesis by (simp only: simp_thms)
qed

text \<open>
  C7.  Only-images suppression.  On a tree as \<^verbatim>\<open>build_tree_description\<close> makes it,
  \<^verbatim>\<open>merge\<close> returns when all content can be read and the writer takes every outline
  request.  Whenever it returns, the pages of the writer are the pages of the entries in
  emission order, those of every image included, and the outline items are, in emission
  order: none for an image whose folder has \<open>only_images\<close>, exactly one for a folder,
  and one for any other file that has pages.
\<close>

theorem only_images_suppression:
  assumes "described tree"
  shows "(readable w ps dpi tree \<and> (\<forall>t n p. \<not> outline_raises w t n p) \<longrightarrow>
            (\<exists>st tree'. merge w tree pl ps dpi = Inr (st, tree')))
       \<and> (\<forall>st tree'. merge w tree pl ps dpi = Inr (st, tree') \<longrightarrow>
             map kind tree' = map kind tree \<and> map path tree' = map path tree
           \<and> writer_pages st = concat (map (inserted_pages w ps dpi) tree)
           \<and> map title_and_page (writer_outline st)
               = concat (map (\<lambda>e. if kind e = Img \<and> in_only_images (folders_of tree) e then []
                                  else if kind e = Folder then [(outline_title pl e, page e)]
                                  else if 0 < get_pages e then [(outline_title pl e, page e)]
                                  else []) tree'))"
proof (intro conjI allI impI)
  assume "readable w ps dpi tree \<and> (\<forall>t n p. \<not> outline_raises w t n p)"
  then show "\<exists>st tree'. merge w tree pl ps dpi = Inr (st, tree')"
    using merge_total[OF assms] by blast
next
  fix st tree' assume m: "merge w tree pl ps dpi = Inr (st, tree')"
  note f = merge_facts[OF m]
  show "map kind tree' = map kind tree" by (rule f(1))
  show "map path tree' = map path tree" by (rule f(2))
  show "writer_pages st = concat (map (inserted_pages w ps dpi) tree)" by (rule f(7))
  show "map title_and_page (writer_outline st)
               = concat (map (\<lambda>e. if kind e = Img \<and> in_only_images (folders_of tree) e then []
                                  else if kind e = Folder then [(outline_title pl e, page e)]
                                  else if 0 < get_pages e then [(outline_title pl e, page e)]
                                  else []) tree')"
    unfolding f(8) by (rule arg_cong[where f = concat], rule map_cong[OF refl])
      (simp add: outline_entry_def)
qed

text \<open>
  The folder album with the images y.png and x.jpg: its description has \<open>only_images\<close>
  set, both pages are in the output in the order of the names, and the outline has the
  one item of the folder.
\<close>

theorem only_images_suppression_example:
  "\<exists>tree st tree'.
     build_tree_description (walk literal_search (\<lambda>s. 0) None None [''album''] [] album_dir) = Inr tree
     \<and> described tree \<and> readable album_world None 150 tree
     \<and> (\<forall>t n p. \<not> outline_raises album_world t n p)
     \<and> map kind tree = [Folder, Img, Img] \<and> map only_images tree = [True, False, False]
     \<and> merge album_world tree False None 150 = Inr (st, tree')
     \<and> writer_pages st = [10, 20]
     \<and> map title_and_page (writer_outline st) = [(''album'', Some 0)]"
proof -
  obtain tree where t: "build_tree_description (walk literal_search (\<lambda>s. 0) None None [''album''] [] album_dir) = Inr tree"
    and d: "described tree"
    using walk_described[of album_dir literal_search "\<lambda>s. 0" None None "[''album'']" "[]"]
    by (auto simp: album_dir_def)
  have nr: "\<forall>t n p. \<not> outline_raises album_world t n p" by (simp add: album_world_def)
  have "map_sum id (map (\<lambda>e. (kind e, only_images e)))
          (build_tree_description (walk literal_search (\<lambda>s. 0) None None [''album''] [] album_dir))
        = Inr [(Folder, True), (Img, False), (Img, False)]"
    by code_simp
  with t have k: "map kind tree = [Folder, Img, Img]" "map only_images tree = [True, False, False]"
    by (auto simp: o_def dest: arg_cong[where f="map fst"] arg_cong[where f="map snd"])
  have "kind item \<noteq> Pdf" if "item \<in> set tree" for item
  proof -
    from that have "kind item \<in> set (map kind tree)" by simp
    then show ?thesis unfolding k(1) by auto
  qed
  then have r: "readable album_world None 150 tree"
    by (simp add: readable_def album_world_def list_all_iff)
  from only_images_suppression[OF d, of album_world None 150 False] r nr obtain st tree' where
    m: "merge album_world tree False None 150 = Inr (st, tree')" by blast
  have "(case compile literal_search (\<lambda>s. 0) album_world [] album_dir None None False None 150 of
           Inr (st, t) \<Rightarrow> writer_pages st = [10, 20]
                           \<and> map title_and_page (writer_outline st) = [(''album'', Some 0)]
         | Inl e \<Rightarrow> False)"
    by code_simp
  moreover have "compile literal_search (\<lambda>s. 0) album_world [] album_dir None None False None 150
      = Inr (st, tree')"
    using t m by (simp add: compile_def select_paths_def album_dir_def)
  ultimately have w: "writer_pages st = [10, 20]"
    "map title_and_page (writer_outline st) = [(''album'', Some 0)]" by simp_all
  show ?thesis
    by (rule exI[of _ tree], rule exI[of _ st], rule exI[of _ tree']) (simp only: t d r nr k m w simp_thms)
qed









end
